theory Spec2Isabelle
  imports Main "HOL-Library.Char_ord" "HOL-Library.List_Lexorder" "HOL-Library.Multiset"
    "HOL-Library.Sublist" "HOL-Library.AList"
begin

section \<open>Data model of the Notion OS sweeper\<close>

text \<open>
  The embedding follows \<^verbatim>\<open>src/nightingale/notion_os_sweeper.mjs\<close>.
  JavaScript values that may be \<^verbatim>\<open>undefined\<close> or \<^verbatim>\<open>null\<close> are options; a string is
  falsy when it is missing or empty. ISO timestamps are strings, compared with the
  lexicographic order on character codes (what \<^verbatim>\<open>>=\<close> does on strings).
\<close>

definition truthy :: "string option \<Rightarrow> bool" where
  "truthy v = (case v of None \<Rightarrow> False | Some s \<Rightarrow> s \<noteq> [])"

text \<open>\<^verbatim>\<open>a || b\<close> on two possibly missing strings, and \<^verbatim>\<open>a || 'literal'\<close>.\<close>

definition or_else :: "string option \<Rightarrow> string option \<Rightarrow> string option" where
  "or_else a b = (if truthy a then a else b)"

definition or_default :: "string option \<Rightarrow> string \<Rightarrow> string" where
  "or_default a d = (case a of None \<Rightarrow> d | Some s \<Rightarrow> if s = [] then d else s)"

record rich_text =
  plain_text :: "string option"

record property =
  prop_type :: "string option"
  prop_title :: "rich_text list option"

record page =
  page_id :: string
  page_url :: "string option"
  page_created_time :: "string option"
  page_last_edited_time :: "string option"
  page_properties :: "(string \<times> property) list"

record user =
  user_name :: "string option"
  user_id :: "string option"

record comment =
  comment_id :: string
  comment_created_time :: "string option"
  comment_created_by :: "user option"
  comment_rich_text :: "rich_text list option"
  comment_nested_rich_text :: "rich_text list option"

record comment_slim =
  slim_id :: string
  slim_created_time :: "string option"
  slim_created_by :: string
  slim_text :: string

text \<open>The four report groups \<^verbatim>\<open>'A'\<close> (new), \<^verbatim>\<open>'B'\<close> (updated), \<^verbatim>\<open>'C'\<close> (commented)
  and \<^verbatim>\<open>'D'\<close> (previously seen, unchanged).\<close>

datatype group = GrpA | GrpB | GrpC | GrpD

record item =
  item_id :: string
  item_title :: string
  item_url :: "string option"
  item_created_time :: "string option"
  item_last_edited_time :: "string option"
  item_group :: group
  item_commentsSinceLastRun :: "comment_slim list"

section \<open>Pure helpers\<close>

definition excerptFromRichText :: "rich_text list option \<Rightarrow> string" where
  "excerptFromRichText richText =
     (case richText of None \<Rightarrow> []
      | Some rts \<Rightarrow> concat (map (\<lambda>rt. or_default (plain_text rt) []) rts))"

fun titleOfProps :: "property list \<Rightarrow> string option" where
  "titleOfProps [] = None"
| "titleOfProps (v # vs) =
     (if prop_type v = Some ''title'' \<and> excerptFromRichText (prop_title v) \<noteq> []
      then Some (excerptFromRichText (prop_title v))
      else titleOfProps vs)"

definition pageTitleFromPage :: "page \<Rightarrow> string" where
  "pageTitleFromPage p =
     (case titleOfProps (map snd (page_properties p)) of
        Some t \<Rightarrow> t
      | None \<Rightarrow> or_default (Some (page_id p)) ''Untitled'')"

definition commentPlainText :: "comment \<Rightarrow> string" where
  "commentPlainText c =
     excerptFromRichText
       (case comment_rich_text c of Some rt \<Rightarrow> Some rt | None \<Rightarrow> comment_nested_rich_text c)"

section \<open>The change classifier\<close>

text \<open>
  \<^verbatim>\<open>classifyItem({ page, commentsSince, wasSeen })\<close>: \<^verbatim>\<open>page?.\<close> and
  \<^verbatim>\<open>commentsSince || []\<close> accept a missing page and a missing list, hence the options.
\<close>

definition classifyItem :: "page option \<Rightarrow> comment_slim list option \<Rightarrow> bool \<Rightarrow> group" where
  "classifyItem pg commentsSince wasSeen =
     (let created = (case pg of None \<Rightarrow> None | Some p \<Rightarrow> page_created_time p);
          edited = (case pg of None \<Rightarrow> None | Some p \<Rightarrow> page_last_edited_time p)
      in if length (case commentsSince of None \<Rightarrow> [] | Some cs \<Rightarrow> cs) \<noteq> 0 then GrpC
         else if wasSeen then GrpD
         else if truthy created \<and> truthy edited \<and> created = edited then GrpA
         else GrpB)"

section \<open>Errors\<close>

text \<open>
  Every \<^verbatim>\<open>throw\<close> and every rejected promise of the script is a value of this type;
  \<^verbatim>\<open>main().catch\<close> prints it and exits with status 1.
\<close>

datatype error =
    MissingApiKey
  | ReadError string
  | JsonSyntaxError
  | MissingDbIds "string list"
  | NotionApiError nat string
  | MissingDataSourceId string
  | TypeError
  | WriteError string

section \<open>The checkpoint and the file that holds it\<close>

text \<open>
  The state file holds \<^verbatim>\<open>{ lastRunIso, seenIds: { [surface]: { [pageId]: iso } } }\<close>.
  A JavaScript object with string keys is an association list with distinct keys, in the
  order \<^verbatim>\<open>Object.entries\<close> enumerates them (insertion order; page ids are UUIDs, never
  array indices). \<^verbatim>\<open>obj[k] = v\<close> is \<^const>\<open>AList.update\<close>: an existing key keeps its
  place, a new key goes last.
\<close>

type_synonym seen_map = "(string \<times> string) list"

record state =
  lastRunIso :: "string option"
  seenIds :: "(string \<times> seen_map) list option"

text \<open>
  A path is the list of its components. A file holds either the JSON text of a state
  (\<^verbatim>\<open>JSON.stringify(obj, null, 2) + '\n'\<close>) or text that \<^verbatim>\<open>JSON.parse\<close> rejects;
  the empty file is \<open>Text []\<close>.
\<close>

type_synonym path = "string list"

datatype content = Text string | Json state

datatype node = Dir | File content

type_synonym fs = "path \<Rightarrow> node option"

definition STATE_PATH :: path where
  "STATE_PATH = [''Users'', ''adammanka'', ''clawd'', ''state'', ''notion-sweeper.state.json'']"

definition dirname :: "path \<Rightarrow> path" where
  "dirname p = butlast p"

definition readFile :: "path \<Rightarrow> fs \<Rightarrow> error + content" where
  "readFile p disk =
     (case disk p of
        None \<Rightarrow> Inl (ReadError ''ENOENT'')
      | Some Dir \<Rightarrow> Inl (ReadError ''EISDIR'')
      | Some (File c) \<Rightarrow> Inr c)"

definition JSON_parse :: "content \<Rightarrow> error + state" where
  "JSON_parse s = (case s of Text t \<Rightarrow> Inl JsonSyntaxError | Json st \<Rightarrow> Inr st)"

definition readJson :: "path \<Rightarrow> fs \<Rightarrow> error + state" where
  "readJson p disk = (case readFile p disk of Inl e \<Rightarrow> Inl e | Inr s \<Rightarrow> JSON_parse s)"

definition isFile :: "node option \<Rightarrow> bool" where
  "isFile n = (case n of Some (File c) \<Rightarrow> True | _ \<Rightarrow> False)"

text \<open>\<^verbatim>\<open>fs.mkdir(d, { recursive: true })\<close>: every missing ancestor is created; it fails
  when a component of the path is a regular file.\<close>

definition mkdir_recursive :: "path \<Rightarrow> fs \<Rightarrow> (error + unit) \<times> fs" where
  "mkdir_recursive d disk =
     (if list_ex (\<lambda>q. isFile (disk q)) (prefixes d) then (Inl (WriteError ''EEXIST''), disk)
      else (Inr (), (\<lambda>q. if q \<in> set (prefixes d) then Some Dir else disk q)))"

text \<open>
  \<^verbatim>\<open>fs.writeFile(p, data)\<close> opens \<open>p\<close> with flag \<^verbatim>\<open>'w'\<close> (create, or truncate to
  length zero) and then writes the data into that same file. \<open>writeFile_states\<close> lists the
  states of the disk that can be observed while a successful call runs.
\<close>

definition writeFile_states :: "path \<Rightarrow> content \<Rightarrow> fs \<Rightarrow> fs list" where
  "writeFile_states p c disk = [disk(p \<mapsto> File (Text [])), disk(p \<mapsto> File c)]"

definition writeFile :: "path \<Rightarrow> content \<Rightarrow> fs \<Rightarrow> (error + unit) \<times> fs" where
  "writeFile p c disk =
     (case disk p of
        Some Dir \<Rightarrow> (Inl (WriteError ''EISDIR''), disk)
      | _ \<Rightarrow>
         (case disk (dirname p) of
            Some Dir \<Rightarrow> (Inr (), disk(p \<mapsto> File c))
          | _ \<Rightarrow> (Inl (WriteError ''ENOENT''), disk)))"

definition writeJson :: "path \<Rightarrow> state \<Rightarrow> fs \<Rightarrow> (error + unit) \<times> fs" where
  "writeJson p obj disk =
     (case mkdir_recursive (dirname p) disk of
        (Inl e, disk1) \<Rightarrow> (Inl e, disk1)
      | (Inr u, disk1) \<Rightarrow> writeFile p (Json obj) disk1)"

text \<open>The successive states of the disk during \<open>writeJson p obj\<close>, first to last.\<close>

definition writeJson_states :: "path \<Rightarrow> state \<Rightarrow> fs \<Rightarrow> fs list" where
  "writeJson_states p obj disk =
     (case mkdir_recursive (dirname p) disk of
        (Inl e, disk1) \<Rightarrow> [disk]
      | (Inr u, disk1) \<Rightarrow>
         (case writeFile p (Json obj) disk1 of
            (Inl e, disk2) \<Rightarrow> [disk, disk1]
          | (Inr u', disk2) \<Rightarrow> disk # disk1 # writeFile_states p (Json obj) disk1))"

section \<open>Environment and surfaces\<close>

record env =
  NOTION_API_KEY :: "string option"
  TASKS_DB_ID :: "string option"
  EVENTS_QUEUE_DB_ID :: "string option"
  IMPORTS_QUEUE_DB_ID :: "string option"

definition PAGE_SIZE :: nat where "PAGE_SIZE = 50"

definition MAX_PAGES :: nat where "MAX_PAGES = 200"

definition assertEnv :: "env \<Rightarrow> error + unit" where
  "assertEnv ev = (if \<not> truthy (NOTION_API_KEY ev) then Inl MissingApiKey else Inr ())"

record surface =
  s_key :: string
  s_name :: string
  s_dbId :: "string option"
  s_seenKey :: string

definition surfaces :: "env \<Rightarrow> surface list" where
  "surfaces ev =
     [\<lparr>s_key = ''Tasks'', s_name = ''Tasks DB'', s_dbId = TASKS_DB_ID ev, s_seenKey = ''Tasks''\<rparr>,
      \<lparr>s_key = ''EventsQueue'', s_name = ''Events Queue DB'', s_dbId = EVENTS_QUEUE_DB_ID ev,
        s_seenKey = ''EventsQueue''\<rparr>,
      \<lparr>s_key = ''ImportsQueue'', s_name = ''Imports Queue DB'', s_dbId = IMPORTS_QUEUE_DB_ID ev,
        s_seenKey = ''ImportsQueue''\<rparr>]"

section \<open>The Notion gateway\<close>

text \<open>
  \<^verbatim>\<open>notionFetch\<close> is the only door to the network. The script uses it for three requests,
  one field of the gateway each; a request returns the parsed payload or the error
  \<^verbatim>\<open>notionFetch\<close> throws, and may change the state \<open>'w\<close> of the outside world.
  Optional fields of a payload are options, as the script reads them
  (\<^verbatim>\<open>data.results || []\<close>, \<^verbatim>\<open>data.has_more\<close>, \<^verbatim>\<open>data.next_cursor\<close>).
\<close>

record database =
  db_data_source_id :: "string option"
  db_data_sources :: "string option list option"
  db_title :: "rich_text list option"

record 'a list_response =
  results :: "'a list option"
  has_more :: bool
  next_cursor :: "string option"

record query_body =
  page_size :: nat
  start_cursor :: "string option"
  filter_on_or_after :: "string option"

record 'w gateway =
  gw_database :: "string \<Rightarrow> 'w \<Rightarrow> (error + database) \<times> 'w"
  gw_query :: "string \<Rightarrow> query_body \<Rightarrow> 'w \<Rightarrow> (error + page list_response) \<times> 'w"
  gw_comments :: "string \<Rightarrow> string option \<Rightarrow> 'w \<Rightarrow> (error + comment list_response) \<times> 'w"

definition resultsOf :: "'a list_response \<Rightarrow> 'a list" where
  "resultsOf d = (case results d of None \<Rightarrow> [] | Some xs \<Rightarrow> xs)"

text \<open>A cursor is sent only when it is truthy (\<^verbatim>\<open>if (!cursor) delete body.start_cursor\<close>,
  \<^verbatim>\<open>if (cursor) url.searchParams.set('start_cursor', cursor)\<close>), and so is the filter on
  the edit time (\<^verbatim>\<open>if (editedSinceIso) body.filter = ...\<close>).\<close>

definition whenTruthy :: "string option \<Rightarrow> string option" where
  "whenTruthy cursor = (if truthy cursor then cursor else None)"

definition getDatabaseAndDataSourceId ::
  "'w gateway \<Rightarrow> string \<Rightarrow> 'w \<Rightarrow> (error + database \<times> string) \<times> 'w" where
  "getDatabaseAndDataSourceId gw databaseId w =
     (case gw_database gw databaseId w of
        (Inl e, w') \<Rightarrow> (Inl e, w')
      | (Inr db, w') \<Rightarrow>
         (case or_else (db_data_source_id db)
                 (case db_data_sources db of Some (d # ds) \<Rightarrow> d | _ \<Rightarrow> None) of
            None \<Rightarrow> (Inl (MissingDataSourceId databaseId), w')
          | Some dataSourceId \<Rightarrow>
             if dataSourceId = [] then (Inl (MissingDataSourceId databaseId), w')
             else (Inr (db, dataSourceId), w')))"

text \<open>
  The \<^verbatim>\<open>while (results.length < MAX_PAGES)\<close> loop of \<^verbatim>\<open>queryDataSource\<close>. It need not
  terminate (a gateway may answer with empty pages and a cursor for ever): \<open>None\<close> is the
  run that never returns.
\<close>

partial_function (option) queryLoop ::
  "'w gateway \<Rightarrow> string \<Rightarrow> string option \<Rightarrow> page list \<Rightarrow> string option \<Rightarrow> 'w
     \<Rightarrow> ((error + page list) \<times> 'w) option" where
  "queryLoop gw dataSourceId editedSinceIso rs cursor w =
     (if length rs < MAX_PAGES then
        (case gw_query gw dataSourceId
                \<lparr>page_size = min PAGE_SIZE (MAX_PAGES - length rs),
                 start_cursor = whenTruthy cursor,
                 filter_on_or_after = whenTruthy editedSinceIso\<rparr> w of
           (Inl e, w') \<Rightarrow> Some (Inl e, w')
         | (Inr data, w') \<Rightarrow>
             if \<not> has_more data then Some (Inr (rs @ resultsOf data), w')
             else if \<not> truthy (next_cursor data) then Some (Inr (rs @ resultsOf data), w')
             else queryLoop gw dataSourceId editedSinceIso (rs @ resultsOf data)
                    (next_cursor data) w')
      else Some (Inr rs, w))"

declare queryLoop.simps [code]

definition queryDataSource ::
  "'w gateway \<Rightarrow> string \<Rightarrow> string option \<Rightarrow> 'w \<Rightarrow> ((error + page list) \<times> 'w) option" where
  "queryDataSource gw dataSourceId editedSinceIso w =
     queryLoop gw dataSourceId editedSinceIso [] None w"

text \<open>The test \<^verbatim>\<open>!sinceIso || !created || created >= sinceIso\<close> of \<^verbatim>\<open>getCommentsSince\<close>.\<close>

definition keptSince :: "string option \<Rightarrow> comment \<Rightarrow> bool" where
  "keptSince sinceIso c =
     (case sinceIso of
        None \<Rightarrow> True
      | Some s \<Rightarrow>
         s = [] \<or>
         (case comment_created_time c of None \<Rightarrow> True | Some created \<Rightarrow> created = [] \<or> s \<le> created))"

text \<open>The \<^verbatim>\<open>do { ... } while (true)\<close> loop of \<^verbatim>\<open>getCommentsSince\<close>; it leaves only when
  the gateway answers \<^verbatim>\<open>has_more\<close> falsy.\<close>

partial_function (option) commentsLoop ::
  "'w gateway \<Rightarrow> string \<Rightarrow> string option \<Rightarrow> comment list \<Rightarrow> string option \<Rightarrow> 'w
     \<Rightarrow> ((error + comment list) \<times> 'w) option" where
  "commentsLoop gw blockId sinceIso out cursor w =
     (case gw_comments gw blockId (whenTruthy cursor) w of
        (Inl e, w') \<Rightarrow> Some (Inl e, w')
      | (Inr data, w') \<Rightarrow>
          if \<not> has_more data then Some (Inr (out @ filter (keptSince sinceIso) (resultsOf data)), w')
          else commentsLoop gw blockId sinceIso (out @ filter (keptSince sinceIso) (resultsOf data))
                 (next_cursor data) w')"

declare commentsLoop.simps [code]

definition getCommentsSince ::
  "'w gateway \<Rightarrow> string \<Rightarrow> string option \<Rightarrow> 'w \<Rightarrow> ((error + comment list) \<times> 'w) option" where
  "getCommentsSince gw blockId sinceIso w = commentsLoop gw blockId sinceIso [] None w"

section \<open>Building the report\<close>

record groups =
  grp_A :: "item list"
  grp_B :: "item list"
  grp_C :: "item list"
  grp_D :: "item list"

record totals =
  queriedPages :: nat
  tot_A :: nat
  tot_B :: nat
  tot_C :: nat
  tot_D :: nat

record surface_entry =
  surfaceName :: string
  databaseId :: "string option"
  dataSourceId :: string
  databaseTitle :: "string option"
  entry_totals :: totals
  entry_groups :: groups

record report =
  ranAtIso :: string
  report_lastRunIso :: "string option"
  bySurface :: "(string \<times> surface_entry) list"

definition slimComment :: "comment \<Rightarrow> comment_slim" where
  "slimComment c =
     \<lparr>slim_id = comment_id c,
      slim_created_time = comment_created_time c,
      slim_created_by =
        or_default
          (case comment_created_by c of
             None \<Rightarrow> None
           | Some u \<Rightarrow> or_else (user_name u) (user_id u))
          ''Unknown'',
      slim_text = take 500 (commentPlainText c)\<rparr>"

text \<open>The body of the \<^verbatim>\<open>for (const p of pages)\<close> loop once the comments of \<open>p\<close> are
  there: \<open>seen\<close> are the keys of the surface's seen map.\<close>

definition makeItem :: "string list \<Rightarrow> page \<Rightarrow> comment list \<Rightarrow> item" where
  "makeItem seen p comments =
     (let pageId = page_id p;
          wasSeen = (pageId \<in> set seen);
          commentsSlim = map slimComment comments;
          grp = classifyItem (Some p) (Some commentsSlim) wasSeen
      in \<lparr>item_id = pageId,
          item_title = pageTitleFromPage p,
          item_url = page_url p,
          item_created_time = page_created_time p,
          item_last_edited_time = page_last_edited_time p,
          item_group = grp,
          item_commentsSinceLastRun = commentsSlim\<rparr>)"

definition emptyGroups :: groups where
  "emptyGroups = \<lparr>grp_A = [], grp_B = [], grp_C = [], grp_D = []\<rparr>"

text \<open>\<^verbatim>\<open>groups[group].push(item)\<close>. (The array \<^verbatim>\<open>items\<close> of the script is filled but
  never read, and is left out.)\<close>

definition pushItem :: "item \<Rightarrow> groups \<Rightarrow> groups" where
  "pushItem it gs =
     (case item_group it of
        GrpA \<Rightarrow> gs\<lparr>grp_A := grp_A gs @ [it]\<rparr>
      | GrpB \<Rightarrow> gs\<lparr>grp_B := grp_B gs @ [it]\<rparr>
      | GrpC \<Rightarrow> gs\<lparr>grp_C := grp_C gs @ [it]\<rparr>
      | GrpD \<Rightarrow> gs\<lparr>grp_D := grp_D gs @ [it]\<rparr>)"

text \<open>The groups built from pages that arrive, each with its comments, in the order of
  the list: one turn of the \<^verbatim>\<open>for (const p of pages)\<close> loop for each.\<close>

definition addPage :: "string list \<Rightarrow> groups \<Rightarrow> page \<times> comment list \<Rightarrow> groups" where
  "addPage seen gs arrived = pushItem (makeItem seen (fst arrived) (snd arrived)) gs"

definition groupItems :: "string list \<Rightarrow> (page \<times> comment list) list \<Rightarrow> groups" where
  "groupItems seen arrived = foldl (addPage seen) emptyGroups arrived"

definition surfaceEntry ::
  "surface \<Rightarrow> string \<Rightarrow> database \<Rightarrow> page list \<Rightarrow> groups \<Rightarrow> surface_entry" where
  "surfaceEntry s dsId db pages gs =
     \<lparr>surfaceName = s_name s,
      databaseId = s_dbId s,
      dataSourceId = dsId,
      databaseTitle =
        (case db_title db of None \<Rightarrow> None | Some t \<Rightarrow> Some (excerptFromRichText (Some t))),
      entry_totals =
        \<lparr>queriedPages = length pages,
         tot_A = length (grp_A gs), tot_B = length (grp_B gs),
         tot_C = length (grp_C gs), tot_D = length (grp_D gs)\<rparr>,
      entry_groups = gs\<rparr>"

text \<open>\<^verbatim>\<open>report.bySurface[s.key] = { ... }\<close>.\<close>

definition recordSurface :: "surface \<Rightarrow> surface_entry \<Rightarrow> report \<Rightarrow> report" where
  "recordSurface s entry rep = rep\<lparr>bySurface := AList.update (s_key s) entry (bySurface rep)\<rparr>"

section \<open>Scanning\<close>

text \<open>The \<^verbatim>\<open>for (const p of pages)\<close> loop: one comment fetch per page; the first
  failing fetch ends the loop with its error.\<close>

fun scanPages ::
  "'w gateway \<Rightarrow> string option \<Rightarrow> string list \<Rightarrow> page list \<Rightarrow> groups \<Rightarrow> 'w
     \<Rightarrow> ((error + groups) \<times> 'w) option" where
  "scanPages gw lastRun seen [] gs w = Some (Inr gs, w)"
| "scanPages gw lastRun seen (p # ps) gs w =
     (case getCommentsSince gw (page_id p) lastRun w of
        None \<Rightarrow> None
      | Some (Inl e, w') \<Rightarrow> Some (Inl e, w')
      | Some (Inr comments, w') \<Rightarrow>
          scanPages gw lastRun seen ps (addPage seen gs (p, comments)) w')"

definition seenMapOf :: "state \<Rightarrow> string \<Rightarrow> seen_map" where
  "seenMapOf st k =
     (case seenIds st of
        None \<Rightarrow> []
      | Some m \<Rightarrow> (case map_of m k of None \<Rightarrow> [] | Some sm \<Rightarrow> sm))"

text \<open>The body of the \<^verbatim>\<open>for (const s of surfaces)\<close> loop that builds the report.\<close>

definition scanSurface ::
  "'w gateway \<Rightarrow> state \<Rightarrow> string option \<Rightarrow> surface \<Rightarrow> report \<Rightarrow> 'w
     \<Rightarrow> ((error + report) \<times> 'w) option" where
  "scanSurface gw st lastRun s rep w =
     (let seen = map fst (seenMapOf st (s_seenKey s)) in
      case getDatabaseAndDataSourceId gw
             (case s_dbId s of None \<Rightarrow> ''undefined'' | Some d \<Rightarrow> d) w of
        (Inl e, w1) \<Rightarrow> Some (Inl e, w1)
      | (Inr (db, dsId), w1) \<Rightarrow>
         (case queryDataSource gw dsId lastRun w1 of
            None \<Rightarrow> None
          | Some (Inl e, w2) \<Rightarrow> Some (Inl e, w2)
          | Some (Inr pages, w2) \<Rightarrow>
             (case scanPages gw lastRun seen pages emptyGroups w2 of
                None \<Rightarrow> None
              | Some (Inl e, w3) \<Rightarrow> Some (Inl e, w3)
              | Some (Inr gs, w3) \<Rightarrow>
                  Some (Inr (recordSurface s (surfaceEntry s dsId db pages gs) rep), w3))))"

fun scanSurfaces ::
  "'w gateway \<Rightarrow> state \<Rightarrow> string option \<Rightarrow> surface list \<Rightarrow> report \<Rightarrow> 'w
     \<Rightarrow> ((error + report) \<times> 'w) option" where
  "scanSurfaces gw st lastRun [] rep w = Some (Inr rep, w)"
| "scanSurfaces gw st lastRun (s # ss) rep w =
     (case scanSurface gw st lastRun s rep w of
        None \<Rightarrow> None
      | Some (Inl e, w') \<Rightarrow> Some (Inl e, w')
      | Some (Inr rep', w') \<Rightarrow> scanSurfaces gw st lastRun ss rep' w')"

section \<open>Committing the checkpoint\<close>

text \<open>
  \<^verbatim>\<open>String(a).localeCompare(String(b))\<close> on two timestamps of the same fixed ISO-8601
  layout orders them as the characters do. \<^verbatim>\<open>Array.prototype.sort\<close> is stable, and a
  stable sort has one result for a given comparison: insertion from the right computes it.
\<close>

definition localeCompare :: "string \<Rightarrow> string \<Rightarrow> int" where
  "localeCompare a b = (if a < b then - 1 else if a = b then 0 else 1)"

fun insertBy :: "('a \<Rightarrow> 'a \<Rightarrow> int) \<Rightarrow> 'a \<Rightarrow> 'a list \<Rightarrow> 'a list" where
  "insertBy cmp x [] = [x]"
| "insertBy cmp x (y # ys) = (if cmp x y \<le> 0 then x # y # ys else y # insertBy cmp x ys)"

definition jsSort :: "('a \<Rightarrow> 'a \<Rightarrow> int) \<Rightarrow> 'a list \<Rightarrow> 'a list" where
  "jsSort cmp xs = foldr (insertBy cmp) xs []"

definition SEEN_CAP :: nat where "SEEN_CAP = 2000"

text \<open>\<^verbatim>\<open>cur[it.id] = it.last_edited_time || report.ranAtIso\<close> for the items of the groups
  A, B, C, D in this order.\<close>

definition stampOf :: "string \<Rightarrow> item \<Rightarrow> string" where
  "stampOf ranAt it = or_default (item_last_edited_time it) ranAt"

definition mergeSeen :: "string \<Rightarrow> seen_map \<Rightarrow> item list \<Rightarrow> seen_map" where
  "mergeSeen ranAt cur its = foldl (\<lambda>m it. AList.update (item_id it) (stampOf ranAt it) m) cur its"

text \<open>\<^verbatim>\<open>Object.entries(cur).sort((a, b) => String(b[1]).localeCompare(String(a[1]))).slice(0, 2000)\<close>\<close>

definition newestFirst :: "string \<times> string \<Rightarrow> string \<times> string \<Rightarrow> int" where
  "newestFirst a b = localeCompare (snd b) (snd a)"

definition boundSeen :: "seen_map \<Rightarrow> seen_map" where
  "boundSeen cur = take SEEN_CAP (jsSort newestFirst cur)"

definition allItems :: "groups \<Rightarrow> item list" where
  "allItems gs = grp_A gs @ grp_B gs @ grp_C gs @ grp_D gs"

text \<open>
  The body of the second \<^verbatim>\<open>for (const s of surfaces)\<close> loop. Reading
  \<^verbatim>\<open>surfaced.groups\<close> of a surface the report lacks, and assigning into
  \<^verbatim>\<open>nextState.seenIds\<close> when the state has no \<^verbatim>\<open>seenIds\<close>, throw a TypeError.
\<close>

definition commitSurface :: "report \<Rightarrow> surface \<Rightarrow> state \<Rightarrow> error + state" where
  "commitSurface rep s nextState =
     (let cur = seenMapOf nextState (s_seenKey s) in
      case map_of (bySurface rep) (s_key s) of
        None \<Rightarrow> Inl TypeError
      | Some surfaced \<Rightarrow>
         (let entries = boundSeen (mergeSeen (ranAtIso rep) cur (allItems (entry_groups surfaced)))
          in case seenIds nextState of
               None \<Rightarrow> Inl TypeError
             | Some m \<Rightarrow> Inr (nextState\<lparr>seenIds := Some (AList.update (s_seenKey s) entries m)\<rparr>)))"

fun commitSurfaces :: "report \<Rightarrow> surface list \<Rightarrow> state \<Rightarrow> error + state" where
  "commitSurfaces rep [] nextState = Inr nextState"
| "commitSurfaces rep (s # ss) nextState =
     (case commitSurface rep s nextState of
        Inl e \<Rightarrow> Inl e
      | Inr nextState' \<Rightarrow> commitSurfaces rep ss nextState')"

definition commit :: "report \<Rightarrow> surface list \<Rightarrow> state \<Rightarrow> error + state" where
  "commit rep ss st = commitSurfaces rep ss (st\<lparr>lastRunIso := Some (ranAtIso rep)\<rparr>)"

section \<open>The run\<close>

text \<open>
  \<open>main ev gw now w disk\<close>: \<open>now\<close> is the clock reading \<^verbatim>\<open>new Date().toISOString()\<close>.
  The result is the outcome (the error \<^verbatim>\<open>main().catch\<close> reports, or success), the world
  after the gateway calls, the disk after the run and what was printed on standard output;
  \<open>None\<close> when a pagination loop never ends.
\<close>

definition main ::
  "env \<Rightarrow> 'w gateway \<Rightarrow> string \<Rightarrow> 'w \<Rightarrow> fs \<Rightarrow> ((error + unit) \<times> 'w \<times> fs \<times> report list) option" where
  "main ev gw now w disk =
     (case assertEnv ev of
        Inl e \<Rightarrow> Some (Inl e, w, disk, [])
      | Inr u \<Rightarrow>
         (case readJson STATE_PATH disk of
            Inl e \<Rightarrow> Some (Inl e, w, disk, [])
          | Inr st \<Rightarrow>
             (let lastRun = lastRunIso st;
                  missing = map s_key (filter (\<lambda>s. \<not> truthy (s_dbId s)) (surfaces ev))
              in if missing \<noteq> [] then Some (Inl (MissingDbIds missing), w, disk, [])
                 else
                   (case scanSurfaces gw st lastRun (surfaces ev)
                           \<lparr>ranAtIso = now, report_lastRunIso = lastRun, bySurface = []\<rparr> w of
                      None \<Rightarrow> None
                    | Some (Inl e, w') \<Rightarrow> Some (Inl e, w', disk, [])
                    | Some (Inr rep, w') \<Rightarrow>
                       (case commit rep (surfaces ev) st of
                          Inl e \<Rightarrow> Some (Inl e, w', disk, [])
                        | Inr nextState \<Rightarrow>
                           (case writeJson STATE_PATH nextState disk of
                              (Inl e, disk') \<Rightarrow> Some (Inl e, w', disk', [rep])
                            | (Inr u', disk') \<Rightarrow> Some (Inr (), w', disk', [rep])))))))"

section \<open>The pages a pagination loop fetches\<close>

text \<open>
  \<open>queryFetches gw ds since k cursor w pages w'\<close>: started with \<open>k\<close> results and
  \<open>cursor\<close> in world \<open>w\<close>, the loop of \<open>queryDataSource\<close> receives exactly the
  payloads \<open>pages\<close>, one per request and none of them an error, and leaves the loop after
  the last one in world \<open>w'\<close>. The loop goes on after a page only when the page has
  \<^verbatim>\<open>has_more\<close> and a cursor and fewer than \<open>MAX_PAGES\<close> results are there.
\<close>

fun queryFetches ::
  "'w gateway \<Rightarrow> string \<Rightarrow> string option \<Rightarrow> nat \<Rightarrow> string option \<Rightarrow> 'w
     \<Rightarrow> page list_response list \<Rightarrow> 'w \<Rightarrow> bool" where
  "queryFetches gw ds since k cursor w [] w' = False"
| "queryFetches gw ds since k cursor w (d # rest) w' =
     (k < MAX_PAGES \<and>
      (case gw_query gw ds
              \<lparr>page_size = min PAGE_SIZE (MAX_PAGES - k),
               start_cursor = whenTruthy cursor,
               filter_on_or_after = whenTruthy since\<rparr> w of
         (Inl e, w1) \<Rightarrow> False
       | (Inr r, w1) \<Rightarrow>
           r = d \<and>
           (if has_more d \<and> truthy (next_cursor d) \<and> k + length (resultsOf d) < MAX_PAGES
            then queryFetches gw ds since (k + length (resultsOf d)) (next_cursor d) w1 rest w'
            else rest = [] \<and> w' = w1)))"

text \<open>The same for the loop of \<open>getCommentsSince\<close>, which goes on after every page that
  has \<^verbatim>\<open>has_more\<close>.\<close>

fun commentFetches ::
  "'w gateway \<Rightarrow> string \<Rightarrow> string option \<Rightarrow> 'w \<Rightarrow> comment list_response list \<Rightarrow> 'w \<Rightarrow> bool" where
  "commentFetches gw b cursor w [] w' = False"
| "commentFetches gw b cursor w (d # rest) w' =
     (case gw_comments gw b (whenTruthy cursor) w of
        (Inl e, w1) \<Rightarrow> False
      | (Inr r, w1) \<Rightarrow>
          r = d \<and>
          (if has_more d then commentFetches gw b (next_cursor d) w1 rest w'
           else rest = [] \<and> w' = w1))"

section \<open>Gateways to run the script against\<close>

text \<open>
  A well-behaved gateway: it holds a database record for every database id, a list of pages
  for every data source and a list of comments for every block, and serves them in pages of
  the requested size (100 for comments, as the script asks). A cursor encodes the offset of
  the next page. The world state counts the requests.
\<close>

definition cursorOf :: "nat \<Rightarrow> string" where
  "cursorOf n = replicate n CHR ''c''"

definition offsetOf :: "string option \<Rightarrow> nat" where
  "offsetOf cursor = (case cursor of None \<Rightarrow> 0 | Some c \<Rightarrow> length c)"

definition servePage :: "'a list \<Rightarrow> nat \<Rightarrow> string option \<Rightarrow> 'a list_response" where
  "servePage xs k cursor =
     \<lparr>results = Some (take k (drop (offsetOf cursor) xs)),
      has_more = (offsetOf cursor + k < length xs),
      next_cursor =
        (if offsetOf cursor + k < length xs then Some (cursorOf (offsetOf cursor + k))
         else None)\<rparr>"

definition servingGateway ::
  "(string \<Rightarrow> database) \<Rightarrow> (string \<Rightarrow> page list) \<Rightarrow> (string \<Rightarrow> comment list) \<Rightarrow> nat gateway" where
  "servingGateway dbOf pagesOf commentsOf =
     \<lparr>gw_database = (\<lambda>dbId n. (Inr (dbOf dbId), Suc n)),
      gw_query = (\<lambda>dsId body n. (Inr (servePage (pagesOf dsId) (page_size body) (start_cursor body)), Suc n)),
      gw_comments = (\<lambda>blockId cursor n. (Inr (servePage (commentsOf blockId) 100 cursor), Suc n))\<rparr>"


text \<open>Sample data: every database has one data source of the same id, which holds one
  page, and no page has comments.\<close>

definition sampleDb :: "string \<Rightarrow> database" where
  "sampleDb dbId = \<lparr>db_data_source_id = Some dbId, db_data_sources = None, db_title = None\<rparr>"

definition samplePage :: "string \<Rightarrow> page" where
  "samplePage pid =
     \<lparr>page_id = pid, page_url = None,
      page_created_time = Some ''2024-05-01T10:00:00.000Z'',
      page_last_edited_time = Some ''2024-05-01T10:00:00.000Z'',
      page_properties = []\<rparr>"

definition sampleGateway :: "nat gateway" where
  "sampleGateway = servingGateway sampleDb (\<lambda>dsId. [samplePage dsId]) (\<lambda>b. [])"

definition sampleEnv :: env where
  "sampleEnv =
     \<lparr>NOTION_API_KEY = Some ''secret'', TASKS_DB_ID = Some ''db1'',
      EVENTS_QUEUE_DB_ID = Some ''db2'', IMPORTS_QUEUE_DB_ID = Some ''db3''\<rparr>"

definition sampleState :: state where
  "sampleState = \<lparr>lastRunIso = None, seenIds = Some []\<rparr>"

text \<open>A disk with the directories of the state file and a first checkpoint in it.\<close>

definition sampleDirs :: fs where
  "sampleDirs = (\<lambda>q. if q \<in> set (prefixes (dirname STATE_PATH)) then Some Dir else None)"

definition sampleDisk :: fs where
  "sampleDisk = sampleDirs(STATE_PATH \<mapsto> File (Json sampleState))"

definition newerState :: state where
  "newerState = \<lparr>lastRunIso = Some ''2024-06-01T00:00:00.000Z'', seenIds = Some []\<rparr>"

text \<open>Surfaces of any size, and a block with three comments: one older than the
  watermark, one newer, one without a creation time.\<close>

definition numberedPage :: "nat \<Rightarrow> page" where
  "numberedPage i = samplePage (replicate (Suc i) CHR ''p'')"

definition manyPages :: "nat \<Rightarrow> page list" where
  "manyPages n = map numberedPage [0..<n]"

definition gateway250 :: "nat gateway" where
  "gateway250 = servingGateway sampleDb (\<lambda>dsId. manyPages 250) (\<lambda>b. [])"

definition gateway120 :: "nat gateway" where
  "gateway120 = servingGateway sampleDb (\<lambda>dsId. manyPages 120) (\<lambda>b. [])"

definition sampleComment :: "string \<Rightarrow> string option \<Rightarrow> comment" where
  "sampleComment cid created =
     \<lparr>comment_id = cid, comment_created_time = created,
      comment_created_by = Some \<lparr>user_name = Some ''Adam'', user_id = Some ''u1''\<rparr>,
      comment_rich_text = Some [\<lparr>plain_text = Some ''please check''\<rparr>],
      comment_nested_rich_text = None\<rparr>"

definition olderComment :: comment where
  "olderComment = sampleComment ''c1'' (Some ''2024-04-30T08:00:00.000Z'')"

definition newerComment :: comment where
  "newerComment = sampleComment ''c2'' (Some ''2024-05-02T08:00:00.000Z'')"

definition undatedComment :: comment where
  "undatedComment = sampleComment ''c3'' None"

definition sampleWatermark :: string where
  "sampleWatermark = ''2024-05-01T00:00:00.000Z''"

definition commentedGateway :: "nat gateway" where
  "commentedGateway =
     servingGateway sampleDb (\<lambda>dsId. [samplePage dsId])
       (\<lambda>b. [olderComment, newerComment, undatedComment])"

section \<open>The comment filter in the words of the specification\<close>

text \<open>A comment is kept when its creation time is on or after the watermark.\<close>

definition spec_createdOnOrAfter :: "string \<Rightarrow> comment \<Rightarrow> bool" where
  "spec_createdOnOrAfter since c =
     (case comment_created_time c of None \<Rightarrow> False | Some created \<Rightarrow> since \<le> created)"

section \<open>Checkpoints and reports to commit\<close>









section \<open>Properties of the classifier\<close>

text \<open>
  C2. An item whose comments-since list is non-empty is classified \<^verbatim>\<open>'C'\<close> (commented)
  whatever its timestamps are and whether or not it was seen before; an item with an empty
  comments-since list that was seen before is classified \<^verbatim>\<open>'D'\<close> (unchanged).
\<close>

theorem classifyItem_comments_then_seen:
  "(cs \<noteq> [] \<longrightarrow> classifyItem pg (Some cs) wasSeen = GrpC) \<and>
   classifyItem pg (Some []) True = GrpD \<and> classifyItem pg None True = GrpD"
  by (simp add: classifyItem_def Let_def)

theorem classifyItem_comments_then_seen_witness:
  "[\<lparr>slim_id = ''c1'', slim_created_time = None, slim_created_by = ''Unknown'',
      slim_text = ''hello''\<rparr>] \<noteq> [] \<and>
   classifyItem (Some \<lparr>page_id = ''p1'', page_url = None,
       page_created_time = Some ''2024-01-01T00:00:00.000Z'',
       page_last_edited_time = Some ''2024-01-01T00:00:00.000Z'',
       page_properties = []\<rparr>) (Some [\<lparr>slim_id = ''c1'', slim_created_time = None, slim_created_by = ''Unknown'',
      slim_text = ''hello''\<rparr>]) False = GrpC"
  using classifyItem_comments_then_seen
    [of "[\<lparr>slim_id = ''c1'', slim_created_time = None, slim_created_by = ''Unknown'',
      slim_text = ''hello''\<rparr>]" "Some \<lparr>page_id = ''p1'', page_url = None,
       page_created_time = Some ''2024-01-01T00:00:00.000Z'',
       page_last_edited_time = Some ''2024-01-01T00:00:00.000Z'',
       page_properties = []\<rparr>" False]
  by simp

text \<open>
  C3, as stated, fails: an unseen item without comments whose two timestamps are equal
  because both are missing is classified \<^verbatim>\<open>'B'\<close>, not \<^verbatim>\<open>'A'\<close>
  (\<^verbatim>\<open>created && edited && created === edited\<close>).
\<close>

theorem classifyItem_equal_missing_counterexample:
  "page_created_time \<lparr>page_id = ''p1'', page_url = None, page_created_time = None,
       page_last_edited_time = None, page_properties = []\<rparr>
   = page_last_edited_time \<lparr>page_id = ''p1'', page_url = None, page_created_time = None,
       page_last_edited_time = None, page_properties = []\<rparr> \<and>
   classifyItem (Some \<lparr>page_id = ''p1'', page_url = None, page_created_time = None,
       page_last_edited_time = None, page_properties = []\<rparr>) (Some []) False
   \<noteq> GrpA"
  by (simp add: classifyItem_def Let_def truthy_def)

text \<open>
  C3, amended. For an unseen item with an empty comments-since list: when both timestamps
  are present, non-empty and equal the classifier returns \<^verbatim>\<open>'A'\<close> (new); when
  \<^verbatim>\<open>created_time < last_edited_time\<close> it returns \<^verbatim>\<open>'B'\<close> (updated).
\<close>

theorem classifyItem_new_vs_updated:
  "(t \<noteq> [] \<and> page_created_time p = Some t \<and> page_last_edited_time p = Some t
      \<longrightarrow> classifyItem (Some p) (Some []) False = GrpA) \<and>
   (page_created_time p = Some c \<and> page_last_edited_time p = Some e \<and> c < e
      \<longrightarrow> classifyItem (Some p) (Some []) False = GrpB)"
  by (auto simp add: classifyItem_def Let_def truthy_def)

theorem classifyItem_new_vs_updated_witness:
  "classifyItem (Some \<lparr>page_id = ''p1'', page_url = None,
       page_created_time = Some ''2024-01-01'', page_last_edited_time = Some ''2024-01-01'',
       page_properties = []\<rparr>) (Some []) False = GrpA \<and>
   ''2024-01-01'' < ''2024-01-02'' \<and>
   classifyItem (Some \<lparr>page_id = ''p1'', page_url = None,
       page_created_time = Some ''2024-01-01'', page_last_edited_time = Some ''2024-01-02'',
       page_properties = []\<rparr>) (Some []) False = GrpB"
proof -
  have lt: "''2024-01-01'' < ''2024-01-02''"
    by (simp add: less_char_def)
  have a: "classifyItem (Some \<lparr>page_id = ''p1'', page_url = None,
       page_created_time = Some ''2024-01-01'', page_last_edited_time = Some ''2024-01-01'',
       page_properties = []\<rparr>) (Some []) False = GrpA"
    using classifyItem_new_vs_updated
      [of "''2024-01-01''" "\<lparr>page_id = ''p1'', page_url = None,
       page_created_time = Some ''2024-01-01'', page_last_edited_time = Some ''2024-01-01'',
       page_properties = []\<rparr>"]
    by simp
  have b: "classifyItem (Some \<lparr>page_id = ''p1'', page_url = None,
       page_created_time = Some ''2024-01-01'', page_last_edited_time = Some ''2024-01-02'',
       page_properties = []\<rparr>) (Some []) False = GrpB"
    using lt classifyItem_new_vs_updated
      [of _ "\<lparr>page_id = ''p1'', page_url = None,
       page_created_time = Some ''2024-01-01'', page_last_edited_time = Some ''2024-01-02'',
       page_properties = []\<rparr>" "''2024-01-01''" "''2024-01-02''"]
    by simp
  from a lt b show ?thesis by blast
qed

text \<open>
  C10. For an unseen item with an empty comments-since list, a missing or empty
  \<^verbatim>\<open>created_time\<close> or \<^verbatim>\<open>last_edited_time\<close> gives \<^verbatim>\<open>'B'\<close> (updated), never
  \<^verbatim>\<open>'A'\<close>: \<^verbatim>\<open>'A'\<close> is returned exactly when both timestamps are present, non-empty and
  equal.
\<close>

theorem classifyItem_missing_timestamp:
  "(\<not> truthy (page_created_time p) \<or> \<not> truthy (page_last_edited_time p)
      \<longrightarrow> classifyItem (Some p) (Some []) False = GrpB) \<and>
   (classifyItem (Some p) (Some []) False = GrpA
      \<longleftrightarrow> truthy (page_created_time p) \<and> truthy (page_last_edited_time p) \<and>
          page_created_time p = page_last_edited_time p)"
  by (auto simp add: classifyItem_def Let_def)

theorem classifyItem_missing_timestamp_witness:
  "\<not> truthy (page_created_time \<lparr>page_id = ''p1'', page_url = None,
       page_created_time = Some [], page_last_edited_time = Some ''2024-01-02'',
       page_properties = []\<rparr>) \<and>
   classifyItem (Some \<lparr>page_id = ''p1'', page_url = None,
       page_created_time = Some [], page_last_edited_time = Some ''2024-01-02'',
       page_properties = []\<rparr>) (Some []) False = GrpB"
  using classifyItem_missing_timestamp
    [of "\<lparr>page_id = ''p1'', page_url = None,
       page_created_time = Some [], page_last_edited_time = Some ''2024-01-02'',
       page_properties = []\<rparr>"]
  by (simp add: truthy_def)

section \<open>The checkpoint is written only after a complete scan\<close>



lemma path_not_prefix_of_dirname:
  assumes "p \<noteq> []"
  shows "p \<notin> set (prefixes (dirname p))"
proof
  assume "p \<in> set (prefixes (dirname p))"
  then have "prefix p (butlast p)"
    by (simp add: dirname_def)
  then have "length p \<le> length (butlast p)"
    by (rule prefix_length_le)
  then have "length p \<le> length p - 1"
    by (simp only: length_butlast)
  with assms show False by (cases p) simp_all
qed



lemma STATE_PATH_nonempty: "STATE_PATH \<noteq> []"
  by (simp add: STATE_PATH_def)

text \<open>A failure anywhere in a loop ends the loop with that failure: the pages and the
  surfaces that come after are not looked at.\<close>

lemma scanPages_append:
  "scanPages gw lastRun seen (ps1 @ ps2) gs w =
     (case scanPages gw lastRun seen ps1 gs w of
        None \<Rightarrow> None
      | Some (Inl e, w') \<Rightarrow> Some (Inl e, w')
      | Some (Inr gs', w') \<Rightarrow> scanPages gw lastRun seen ps2 gs' w')"
  by (induction ps1 arbitrary: gs w) (auto split: option.splits sum.splits)

lemma scanPages_comment_failure:
  assumes "scanPages gw lastRun seen ps1 gs w = Some (Inr gs1, w1)"
    and "getCommentsSince gw (page_id p) lastRun w1 = Some (Inl e, w2)"
  shows "scanPages gw lastRun seen (ps1 @ p # ps2) gs w = Some (Inl e, w2)"
  using assms by (simp add: scanPages_append)

lemma scanSurfaces_append:
  "scanSurfaces gw st lastRun (ss1 @ ss2) rep w =
     (case scanSurfaces gw st lastRun ss1 rep w of
        None \<Rightarrow> None
      | Some (Inl e, w') \<Rightarrow> Some (Inl e, w')
      | Some (Inr rep', w') \<Rightarrow> scanSurfaces gw st lastRun ss2 rep' w')"
  by (induction ss1 arbitrary: rep w) (auto split: option.splits sum.splits)

lemma scanSurfaces_surface_failure:
  assumes "scanSurfaces gw st lastRun ss1 rep w = Some (Inr rep1, w1)"
    and "scanSurface gw st lastRun s rep1 w1 = Some (Inl e, w2)"
  shows "scanSurfaces gw st lastRun (ss1 @ s # ss2) rep w = Some (Inl e, w2)"
  using assms by (simp add: scanSurfaces_append)

lemma scanSurface_pages_failure:
  assumes "getDatabaseAndDataSourceId gw (case s_dbId s of None \<Rightarrow> ''undefined'' | Some d \<Rightarrow> d) w
             = (Inr (db, dsId), w1)"
    and "queryDataSource gw dsId lastRun w1 = Some (Inr pages, w2)"
    and "scanPages gw lastRun (map fst (seenMapOf st (s_seenKey s))) pages emptyGroups w2
           = Some (Inl e, w3)"
  shows "scanSurface gw st lastRun s rep w = Some (Inl e, w3)"
  using assms by (simp add: scanSurface_def)




text \<open>Against the gateway that answers every request the same run succeeds: after nine
  requests the report is printed and the new checkpoint, with the three pages seen, is in
  the state file.\<close>

lemma sample_scan:
  "scanSurfaces sampleGateway sampleState None (surfaces sampleEnv)
      \<lparr>ranAtIso = ''2024-06-01T00:00:00.000Z'', report_lastRunIso = None, bySurface = []\<rparr> 0
   = Some (Inr \<lparr>ranAtIso = ''2024-06-01T00:00:00.000Z'', report_lastRunIso = None,
        bySurface =
          [(''Tasks'', surfaceEntry (surfaces sampleEnv ! 0) ''db1'' (sampleDb ''db1'')
              [samplePage ''db1''] (groupItems [] [(samplePage ''db1'', [])])),
           (''EventsQueue'', surfaceEntry (surfaces sampleEnv ! 1) ''db2'' (sampleDb ''db2'')
              [samplePage ''db2''] (groupItems [] [(samplePage ''db2'', [])])),
           (''ImportsQueue'', surfaceEntry (surfaces sampleEnv ! 2) ''db3'' (sampleDb ''db3'')
              [samplePage ''db3''] (groupItems [] [(samplePage ''db3'', [])]))]\<rparr>, 9)"
  by (simp add: surfaces_def sampleEnv_def sampleState_def scanSurface_def truthy_def
        getDatabaseAndDataSourceId_def sampleGateway_def servingGateway_def
        sampleDb_def or_else_def queryDataSource_def queryLoop.simps getCommentsSince_def
        commentsLoop.simps servePage_def MAX_PAGES_def PAGE_SIZE_def whenTruthy_def offsetOf_def
        resultsOf_def seenMapOf_def recordSurface_def groupItems_def emptyGroups_def)

lemma sample_run_succeeds:
  "\<exists>rep st'. main sampleEnv sampleGateway ''2024-06-01T00:00:00.000Z'' 0 sampleDisk
       = Some (Inr (), 9, sampleDisk(STATE_PATH \<mapsto> File (Json st')), [rep]) \<and>
     lastRunIso st' = Some ''2024-06-01T00:00:00.000Z'' \<and>
     seenIds st' = Some [(''Tasks'', [(''db1'', ''2024-05-01T10:00:00.000Z'')]),
                         (''EventsQueue'', [(''db2'', ''2024-05-01T10:00:00.000Z'')]),
                         (''ImportsQueue'', [(''db3'', ''2024-05-01T10:00:00.000Z'')])]"
proof -
  let ?rep = "\<lparr>ranAtIso = ''2024-06-01T00:00:00.000Z'', report_lastRunIso = None,
        bySurface =
          [(''Tasks'', surfaceEntry (surfaces sampleEnv ! 0) ''db1'' (sampleDb ''db1'')
              [samplePage ''db1''] (groupItems [] [(samplePage ''db1'', [])])),
           (''EventsQueue'', surfaceEntry (surfaces sampleEnv ! 1) ''db2'' (sampleDb ''db2'')
              [samplePage ''db2''] (groupItems [] [(samplePage ''db2'', [])])),
           (''ImportsQueue'', surfaceEntry (surfaces sampleEnv ! 2) ''db3'' (sampleDb ''db3'')
              [samplePage ''db3''] (groupItems [] [(samplePage ''db3'', [])]))]\<rparr>"
  let ?st' = "\<lparr>lastRunIso = Some ''2024-06-01T00:00:00.000Z'',
      seenIds = Some [(''Tasks'', [(''db1'', ''2024-05-01T10:00:00.000Z'')]),
                      (''EventsQueue'', [(''db2'', ''2024-05-01T10:00:00.000Z'')]),
                      (''ImportsQueue'', [(''db3'', ''2024-05-01T10:00:00.000Z'')])]\<rparr>"
  have c: "commit ?rep (surfaces sampleEnv) sampleState = Inr ?st'"
    by code_simp
  have r: "readJson STATE_PATH sampleDisk = Inr sampleState"
    by (simp add: readJson_def readFile_def sampleDisk_def JSON_parse_def)
  have w: "writeJson STATE_PATH ?st' sampleDisk
             = (Inr (), sampleDisk(STATE_PATH \<mapsto> File (Json ?st')))"
    by (auto simp add: writeJson_def mkdir_recursive_def sampleDisk_def sampleDirs_def
        STATE_PATH_def dirname_def isFile_def writeFile_def)
  have "main sampleEnv sampleGateway ''2024-06-01T00:00:00.000Z'' 0 sampleDisk
       = Some (Inr (), 9, sampleDisk(STATE_PATH \<mapsto> File (Json ?st')), [?rep])"
    using sample_scan c w r
    by (simp add: main_def Let_def assertEnv_def sampleEnv_def truthy_def surfaces_def
        sampleState_def)
  then show ?thesis
    by (intro exI[of _ ?rep] exI[of _ ?st']) simp
qed

section \<open>Loading and saving the checkpoint\<close>

text \<open>
  C6. The claim asks for a default empty checkpoint when the state file is absent. The
  sweeper reads the file with \<^verbatim>\<open>readJson\<close>, which lets the rejection of
  \<^verbatim>\<open>fs.readFile\<close> through: on a disk without the state file the run ends with the read
  error before any request is made, and nothing is written.
\<close>

theorem main_without_state_file:
  "readJson STATE_PATH Map.empty = Inl (ReadError ''ENOENT'') \<and>
   main sampleEnv gw now w Map.empty = Some (Inl (ReadError ''ENOENT''), w, Map.empty, [])"
  by (simp add: main_def readJson_def readFile_def assertEnv_def sampleEnv_def truthy_def)


text \<open>
  C7, as stated, fails: \<open>writeJson\<close> writes straight into the checkpoint file. With an old
  checkpoint on disk, the third of the four states of the disk during the save has the file
  empty, which is neither the old content nor the new one.
\<close>

theorem writeJson_truncates_counterexample:
  "length (writeJson_states STATE_PATH newerState sampleDisk) = 4 \<and>
   sampleDisk STATE_PATH = Some (File (Json sampleState)) \<and>
   (writeJson_states STATE_PATH newerState sampleDisk ! 2) STATE_PATH = Some (File (Text [])) \<and>
   (writeJson_states STATE_PATH newerState sampleDisk ! 3) STATE_PATH = Some (File (Json newerState))"
  by (simp add: writeJson_states_def mkdir_recursive_def sampleDisk_def sampleDirs_def
      STATE_PATH_def dirname_def isFile_def writeFile_def writeFile_states_def)

lemma writeJson_ok:
  assumes nofile: "\<not> list_ex (\<lambda>q. isFile (disk q)) (prefixes (dirname p))"
    and nodir: "disk p \<noteq> Some Dir" and ne: "p \<noteq> []"
  shows "writeJson p obj disk =
           (Inr (), (\<lambda>q. if q \<in> set (prefixes (dirname p)) then Some Dir else disk q)(p \<mapsto> File (Json obj)))"
proof -
  let ?d1 = "\<lambda>q. if q \<in> set (prefixes (dirname p)) then Some Dir else disk q"
  have m: "mkdir_recursive (dirname p) disk = (Inr (), ?d1)"
    using nofile by (simp add: mkdir_recursive_def)
  have np: "\<not> prefix p (dirname p)"
    using path_not_prefix_of_dirname[OF ne] by simp
  have "writeFile p (Json obj) ?d1 = (Inr (), ?d1(p \<mapsto> File (Json obj)))"
    using np nodir by (auto simp: writeFile_def split: option.splits node.splits)
  with m show ?thesis by (simp add: writeJson_def)
qed

text \<open>
  C7, amended. When no component of the parent path is a regular file and the path is not
  a directory, saving succeeds: it first makes the parent directory (and every missing
  ancestor), then writes the new content directly into the file with one \<^verbatim>\<open>writeFile\<close>.
  Afterwards the file holds the complete new content; while the write runs the file is
  first truncated, so the save is no atomic replace.
\<close>

theorem writeJson_makes_parent_then_writes:
  assumes nofile: "\<not> list_ex (\<lambda>q. isFile (disk q)) (prefixes (dirname p))"
    and nodir: "disk p \<noteq> Some Dir" and ne: "p \<noteq> []"
  shows "\<exists>disk1 disk'.
           mkdir_recursive (dirname p) disk = (Inr (), disk1) \<and>
           writeJson p obj disk = (Inr (), disk') \<and>
           disk1 (dirname p) = Some Dir \<and>
           disk' = disk1(p \<mapsto> File (Json obj)) \<and>
           writeJson_states p obj disk = [disk, disk1, disk1(p \<mapsto> File (Text [])), disk']"
proof -
  let ?d1 = "\<lambda>q. if q \<in> set (prefixes (dirname p)) then Some Dir else disk q"
  have m: "mkdir_recursive (dirname p) disk = (Inr (), ?d1)"
    using nofile by (simp add: mkdir_recursive_def)
  have w: "writeJson p obj disk = (Inr (), ?d1(p \<mapsto> File (Json obj)))"
    by (rule writeJson_ok[OF assms])
  have wf: "writeFile p (Json obj) ?d1 = (Inr (), ?d1(p \<mapsto> File (Json obj)))"
    using w m by (simp add: writeJson_def)
  have s: "writeJson_states p obj disk =
      [disk, ?d1, ?d1(p \<mapsto> File (Text [])), ?d1(p \<mapsto> File (Json obj))]"
    using m wf by (simp add: writeJson_states_def writeFile_states_def)
  have "?d1 (dirname p) = Some Dir" by simp
  with m w s show ?thesis by blast
qed

theorem writeJson_makes_parent_then_writes_witness:
  "\<not> list_ex (\<lambda>q. isFile (Map.empty q)) (prefixes (dirname STATE_PATH)) \<and>
   (Map.empty :: fs) STATE_PATH \<noteq> Some Dir \<and> STATE_PATH \<noteq> [] \<and>
   (Map.empty :: fs) (dirname STATE_PATH) = None \<and>
   fst (writeJson STATE_PATH newerState Map.empty) = Inr () \<and>
   snd (writeJson STATE_PATH newerState Map.empty) (dirname STATE_PATH) = Some Dir \<and>
   snd (writeJson STATE_PATH newerState Map.empty) STATE_PATH = Some (File (Json newerState))"
proof -
  have h1: "\<not> list_ex (\<lambda>q. isFile (Map.empty q)) (prefixes (dirname STATE_PATH))"
    by (simp add: isFile_def list_ex_iff)
  have h2: "(Map.empty :: fs) STATE_PATH \<noteq> Some Dir" by simp
  from writeJson_makes_parent_then_writes[OF h1 h2 STATE_PATH_nonempty, of newerState]
  obtain disk1 disk' where
    "writeJson STATE_PATH newerState Map.empty = (Inr (), disk')"
    "disk1 (dirname STATE_PATH) = Some Dir"
    "disk' = disk1(STATE_PATH \<mapsto> File (Json newerState))"
    by blast
  moreover have "STATE_PATH \<noteq> dirname STATE_PATH"
    by (simp add: STATE_PATH_def dirname_def)
  ultimately show ?thesis using h1 h2 STATE_PATH_nonempty by auto
qed

section \<open>Pagination\<close>


lemma offsetOf_cursorOf: "0 < n \<Longrightarrow> offsetOf (whenTruthy (Some (cursorOf n))) = n"
  by (cases n) (simp_all add: offsetOf_def whenTruthy_def cursorOf_def truthy_def)

lemma truthy_cursorOf: "0 < n \<Longrightarrow> truthy (Some (cursorOf n))"
  by (cases n) (simp_all add: cursorOf_def truthy_def)

lemma commentsLoop_serving:
  "offsetOf (whenTruthy cursor) = off \<Longrightarrow>
   \<exists>n'. commentsLoop (servingGateway dbOf pagesOf commentsOf) b since out cursor n
          = Some (Inr (out @ filter (keptSince since) (drop off (commentsOf b))), n')"
proof (induction "length (commentsOf b) - off" arbitrary: off out cursor n rule: less_induct)
  case less
  let ?gw = "servingGateway dbOf pagesOf commentsOf"
  let ?cs = "commentsOf b"
  let ?page = "take 100 (drop off ?cs)"
  show ?case
  proof (cases "off + 100 < length ?cs")
    case False
    then have "?page = drop off ?cs" by simp
    then show ?thesis
      using False less.prems
      by (subst commentsLoop.simps)
         (simp add: servingGateway_def servePage_def resultsOf_def)
  next
    case True
    let ?cur' = "Some (cursorOf (off + 100))"
    let ?out' = "out @ filter (keptSince since) ?page"
    have step: "commentsLoop ?gw b since out cursor n
                = commentsLoop ?gw b since ?out' ?cur' (Suc n)"
      using True less.prems
      by (subst commentsLoop.simps)
         (simp add: servingGateway_def servePage_def resultsOf_def)
    have off': "offsetOf (whenTruthy ?cur') = off + 100"
      by (rule offsetOf_cursorOf) simp
    have "length ?cs - (off + 100) < length ?cs - off"
      using True by simp
    from less.hyps[OF this off', of ?out' "Suc n"]
    obtain n' where r: "commentsLoop ?gw b since ?out' ?cur' (Suc n)
        = Some (Inr (?out' @ filter (keptSince since) (drop (off + 100) ?cs)), n')"
      by blast
    have "?page @ drop (off + 100) ?cs = drop off ?cs"
      by (metis add.commute append_take_drop_id drop_drop)
    then have "filter (keptSince since) ?page @ filter (keptSince since) (drop (off + 100) ?cs)
               = filter (keptSince since) (drop off ?cs)"
      by (metis filter_append)
    with step r show ?thesis by simp
  qed
qed

lemma queryLoop_serving:
  assumes "offsetOf (whenTruthy cursor) = length rs" and "rs = take (length rs) (pagesOf ds)"
    and "length rs \<le> MAX_PAGES"
  shows "\<exists>n'. queryLoop (servingGateway dbOf pagesOf commentsOf) ds since rs cursor n
          = Some (Inr (take MAX_PAGES (pagesOf ds)), n')"
  using assms
proof (induction "MAX_PAGES - length rs" arbitrary: rs cursor n rule: less_induct)
  case less
  let ?gw = "servingGateway dbOf pagesOf commentsOf"
  let ?ps = "pagesOf ds"
  let ?off = "length rs"
  let ?k = "min PAGE_SIZE (MAX_PAGES - ?off)"
  let ?page = "take ?k (drop ?off ?ps)"
  have offle: "?off \<le> length ?ps"
    using less.prems(2) by (metis length_take min.cobounded1 min.commute)
  have rs': "rs @ ?page = take (?off + ?k) ?ps"
    using less.prems(2) by (metis add.commute take_add)
  show ?case
  proof (cases "?off < MAX_PAGES")
    case False
    with less.prems(3) have "?off = MAX_PAGES" by simp
    with less.prems(2) have "rs = take MAX_PAGES ?ps" by simp
    with False show ?thesis
      by (subst queryLoop.simps) simp
  next
    case lt: True
    then have kpos: "0 < ?k" by (simp add: PAGE_SIZE_def)
    show ?thesis
    proof (cases "?off + ?k < length ?ps")
      case False
      then have "take (?off + ?k) ?ps = ?ps" by simp
      moreover have "length ?ps \<le> MAX_PAGES" using False lt by simp
      ultimately have "rs @ ?page = take MAX_PAGES ?ps"
        using rs' by simp
      then show ?thesis
        using False lt less.prems(1)
        by (subst queryLoop.simps)
           (simp add: servingGateway_def servePage_def resultsOf_def)
    next
      case True
      let ?cur' = "Some (cursorOf (?off + ?k))"
      have tr: "truthy ?cur'" using kpos by (intro truthy_cursorOf) simp
      have step: "queryLoop ?gw ds since rs cursor n
                  = queryLoop ?gw ds since (rs @ ?page) ?cur' (Suc n)"
        using True lt less.prems(1) tr
        by (subst queryLoop.simps)
           (simp add: servingGateway_def servePage_def resultsOf_def)
      have len': "length (rs @ ?page) = ?off + ?k"
        using True by simp
      have a1: "offsetOf (whenTruthy ?cur') = length (rs @ ?page)"
        unfolding len' using kpos by (intro offsetOf_cursorOf) simp
      have a2: "rs @ ?page = take (length (rs @ ?page)) ?ps"
        unfolding len' by (rule rs')
      have a3: "length (rs @ ?page) \<le> MAX_PAGES"
        unfolding len' using lt by simp
      have dec: "MAX_PAGES - length (rs @ ?page) < MAX_PAGES - ?off"
        unfolding len' using lt kpos by simp
      from less.hyps[OF dec a1 a2 a3, of "Suc n"] step show ?thesis by simp
    qed
  qed
qed


lemma commentsLoop_of_fetches:
  "commentFetches gw b cursor w pages w' \<Longrightarrow>
   commentsLoop gw b since out cursor w
     = Some (Inr (out @ filter (keptSince since) (concat (map resultsOf pages))), w')"
proof (induction pages arbitrary: cursor w out)
  case Nil
  then show ?case by simp
next
  case (Cons d rest)
  then show ?case
    by (subst commentsLoop.simps) (auto split: prod.splits sum.splits if_splits)
qed

lemma queryLoop_of_fetches:
  "queryFetches gw ds since (length rs) cursor w pages w' \<Longrightarrow>
   queryLoop gw ds since rs cursor w = Some (Inr (rs @ concat (map resultsOf pages)), w')"
proof (induction pages arbitrary: cursor w rs)
  case Nil
  then show ?case by simp
next
  case (Cons d rest)
  from Cons.prems have lt: "length rs < MAX_PAGES" by simp
  obtain r w1 where g: "gw_query gw ds
              \<lparr>page_size = min PAGE_SIZE (MAX_PAGES - length rs),
               start_cursor = whenTruthy cursor,
               filter_on_or_after = whenTruthy since\<rparr> w = (r, w1)"
    by (cases "gw_query gw ds
              \<lparr>page_size = min PAGE_SIZE (MAX_PAGES - length rs),
               start_cursor = whenTruthy cursor,
               filter_on_or_after = whenTruthy since\<rparr> w") 
  from Cons.prems g have r: "r = Inr d"
    by (auto split: sum.splits)
  show ?case
  proof (cases "has_more d \<and> truthy (next_cursor d) \<and> length rs + length (resultsOf d) < MAX_PAGES")
    case True
    with Cons.prems g r
    have "queryFetches gw ds since (length (rs @ resultsOf d)) (next_cursor d) w1 rest w'"
      by simp
    from Cons.IH[OF this] True lt g r show ?thesis
      by (subst queryLoop.simps) simp
  next
    case False
    with Cons.prems g r have e: "rest = []" "w' = w1" by auto
    show ?thesis
    proof (cases "has_more d \<and> truthy (next_cursor d)")
      case True
      with False have "\<not> length (rs @ resultsOf d) < MAX_PAGES" by simp
      then have "queryLoop gw ds since (rs @ resultsOf d) (next_cursor d) w1
                 = Some (Inr (rs @ resultsOf d), w1)"
        by (subst queryLoop.simps) simp
      with True lt g r e show ?thesis
        by (subst queryLoop.simps) simp
    next
      case False
      with lt g r e show ?thesis
        by (subst queryLoop.simps) auto
    qed
  qed
qed


lemma commentsLoop_fetches:
  fixes gw :: "'a gateway"
  assumes "commentsLoop gw b since out cursor w = Some (Inr res, w')"
  shows "\<exists>pages. commentFetches gw b cursor w pages w' \<and>
           res = out @ filter (keptSince since) (concat (map resultsOf pages))"
proof -
  let ?P = "\<lambda>gw b since out cursor w (y :: (error + comment list) \<times> 'a). \<forall>res w'. y = (Inr res, w') \<longrightarrow>
          (\<exists>pages. commentFetches gw b cursor w pages w' \<and>
             res = out @ filter (keptSince since) (concat (map resultsOf pages)))"
  have "?P gw b since out cursor w (Inr res, w')"
  proof (rule commentsLoop.raw_induct[where P = ?P, OF _ assms], goal_cases)
    case (1 loop gw b since out cursor w y)
    obtain r w1 where g: "gw_comments gw b (whenTruthy cursor) w = (r, w1)"
      by (cases "gw_comments gw b (whenTruthy cursor) w")
    show ?case
    proof (cases r)
      case (Inl e)
      with 1(2) g show ?thesis by auto
    next
      case (Inr d)
      show ?thesis
      proof (cases "has_more d")
        case False
        with 1(2) g Inr have "y = (Inr (out @ filter (keptSince since) (resultsOf d)), w1)"
          by simp
        moreover have "commentFetches gw b cursor w [d] w1"
          using g Inr False by simp
        ultimately show ?thesis
          by (intro allI impI exI[of _ "[d]"]) auto
      next
        case True
        with 1(2) g Inr
        have rc: "loop gw b since (out @ filter (keptSince since) (resultsOf d)) (next_cursor d) w1
                  = Some y"
          by simp
        show ?thesis
        proof (intro allI impI)
          fix res w'
          assume y: "y = (Inr res, w')"
          from 1(1)[OF rc] y obtain pages where
            p: "commentFetches gw b (next_cursor d) w1 pages w'"
            and res: "res = (out @ filter (keptSince since) (resultsOf d)) @
                        filter (keptSince since) (concat (map resultsOf pages))"
            by blast
          have "commentFetches gw b cursor w (d # pages) w'"
            using g Inr True p by simp
          moreover have "res = out @ filter (keptSince since) (concat (map resultsOf (d # pages)))"
            using res by simp
          ultimately show "\<exists>pages. commentFetches gw b cursor w pages w' \<and>
             res = out @ filter (keptSince since) (concat (map resultsOf pages))"
            by blast
        qed
      qed
    qed
  qed
  then show ?thesis by blast
qed

lemma queryLoop_fetches:
  fixes gw :: "'a gateway"
  assumes "queryLoop gw ds since rs cursor w = Some (Inr res, w')"
  shows "(\<not> length rs < MAX_PAGES \<and> res = rs \<and> w' = w) \<or>
         (\<exists>pages. queryFetches gw ds since (length rs) cursor w pages w' \<and>
            res = rs @ concat (map resultsOf pages))"
proof -
  let ?P = "\<lambda>gw ds since rs cursor w (y :: (error + page list) \<times> 'a). \<forall>res w'. y = (Inr res, w') \<longrightarrow>
          (\<not> length rs < MAX_PAGES \<and> res = rs \<and> w' = w) \<or>
          (\<exists>pages. queryFetches gw ds since (length rs) cursor w pages w' \<and>
             res = rs @ concat (map resultsOf pages))"
  have "?P gw ds since rs cursor w (Inr res, w')"
  proof (rule queryLoop.raw_induct[where P = ?P, OF _ assms], goal_cases)
    case (1 loop gw ds since rs cursor w y)
    show ?case
    proof (cases "length rs < MAX_PAGES")
      case False
      with 1(2) show ?thesis by auto
    next
      case lt: True
      let ?body = "\<lparr>page_size = min PAGE_SIZE (MAX_PAGES - length rs),
               start_cursor = whenTruthy cursor,
               filter_on_or_after = whenTruthy since\<rparr>"
      obtain r w1 where g: "gw_query gw ds ?body w = (r, w1)"
        by (cases "gw_query gw ds ?body w")
      show ?thesis
      proof (cases r)
        case (Inl e)
        with 1(2) g lt show ?thesis by auto
      next
        case (Inr d)
        show ?thesis
        proof (cases "has_more d \<and> truthy (next_cursor d)")
          case False
          with 1(2) g Inr lt have y: "y = (Inr (rs @ resultsOf d), w1)"
            by (auto split: if_splits)
          have "queryFetches gw ds since (length rs) cursor w [d] w1"
            using g Inr False lt by auto
          with y show ?thesis
            by (intro allI impI disjI2 exI[of _ "[d]"]) auto
        next
          case True
          with 1(2) g Inr lt
          have rc: "loop gw ds since (rs @ resultsOf d) (next_cursor d) w1 = Some y"
            by simp
          show ?thesis
          proof (intro allI impI disjI2)
            fix res w'
            assume y: "y = (Inr res, w')"
            from 1(1)[OF rc] y
            consider (stop) "\<not> length (rs @ resultsOf d) < MAX_PAGES" "res = rs @ resultsOf d" "w' = w1"
              | (go) pages where
                  "queryFetches gw ds since (length (rs @ resultsOf d)) (next_cursor d) w1 pages w'"
                  "res = (rs @ resultsOf d) @ concat (map resultsOf pages)"
              by blast
            then show "\<exists>pages. queryFetches gw ds since (length rs) cursor w pages w' \<and>
                res = rs @ concat (map resultsOf pages)"
            proof cases
              case stop
              then have "queryFetches gw ds since (length rs) cursor w [d] w'"
                using g Inr lt by simp
              with stop show ?thesis
                by (intro exI[of _ "[d]"]) simp
            next
              case go
              from go(1) have "length (rs @ resultsOf d) < MAX_PAGES"
                by (cases pages) simp_all
              with go(1) have "queryFetches gw ds since (length rs) cursor w (d # pages) w'"
                using g Inr lt True by simp
              with go(2) show ?thesis
                by (intro exI[of _ "d # pages"]) simp
            qed
          qed
        qed
      qed
    qed
  qed
  then show ?thesis by blast
qed


text \<open>
  C5, amended. \<open>queryDataSource\<close> returns a list of pages exactly when the gateway
  answers its successive requests with payloads none of which is an error, and the list is
  the results of these payloads, one after the other; the loop stops after a payload that
  reports no further page or gives no cursor, or once 200 results are there (\<open>MAX_PAGES\<close>
  counts results, that is Notion pages, not requests). Against a gateway that serves a
  surface in pages of the requested size the result is the first 200 pages of the surface,
  never an error: all of them when the surface has 120.
\<close>

theorem queryDataSource_pages:
  fixes gw :: "'w gateway"
  shows
  "(queryDataSource gw ds since w = Some (Inr res, w') \<longleftrightarrow>
      (\<exists>pages. queryFetches gw ds since 0 None w pages w' \<and> res = concat (map resultsOf pages))) \<and>
   (\<exists>n'. queryDataSource (servingGateway dbOf pagesOf commentsOf) ds' since' n
           = Some (Inr (take 200 (pagesOf ds')), n')) \<and>
   (length (pagesOf ds') = 120 \<longrightarrow>
      (\<exists>n'. queryDataSource (servingGateway dbOf pagesOf commentsOf) ds' since' n
           = Some (Inr (pagesOf ds'), n')))"
proof -
  have fetch: "queryDataSource gw ds since w = Some (Inr res, w') \<longleftrightarrow>
      (\<exists>pages. queryFetches gw ds since 0 None w pages w' \<and> res = concat (map resultsOf pages))"
  proof
    assume "queryDataSource gw ds since w = Some (Inr res, w')"
    then have "queryLoop gw ds since [] None w = Some (Inr res, w')"
      by (simp add: queryDataSource_def)
    from queryLoop_fetches[OF this] show
      "\<exists>pages. queryFetches gw ds since 0 None w pages w' \<and> res = concat (map resultsOf pages)"
      by (simp add: MAX_PAGES_def)
  next
    assume "\<exists>pages. queryFetches gw ds since 0 None w pages w' \<and> res = concat (map resultsOf pages)"
    then obtain pages where "queryFetches gw ds since (length ([] :: page list)) None w pages w'"
      and "res = concat (map resultsOf pages)"
      by auto
    then show "queryDataSource gw ds since w = Some (Inr res, w')"
      using queryLoop_of_fetches[of gw ds since "[]" None w pages w']
      by (simp add: queryDataSource_def)
  qed
  have serve: "\<exists>n'. queryDataSource (servingGateway dbOf pagesOf commentsOf) ds' since' n
           = Some (Inr (take 200 (pagesOf ds')), n')"
    using queryLoop_serving[of None "[]" pagesOf ds' dbOf commentsOf since' n]
    by (simp add: queryDataSource_def offsetOf_def whenTruthy_def truthy_def MAX_PAGES_def)
  from fetch serve show ?thesis by auto
qed

theorem queryDataSource_pages_witness:
  "length (manyPages 120) = 120 \<and>
   (\<exists>n'. queryDataSource gateway120 ''ds1'' None 0 = Some (Inr (manyPages 120), n'))"
  using queryDataSource_pages[THEN conjunct2, THEN conjunct2,
      of "\<lambda>dsId. manyPages 120" "''ds1''" sampleDb "\<lambda>b. []" None 0]
  by (simp add: manyPages_def gateway120_def)

lemma length_manyPages: "length (manyPages n) = n"
  by (simp add: manyPages_def)

lemma whenTruthy_cursorOf: "0 < k \<Longrightarrow> whenTruthy (Some (cursorOf k)) = Some (cursorOf k)"
  by (simp add: whenTruthy_def truthy_cursorOf)

lemma offsetOf_Some_cursorOf: "offsetOf (Some (cursorOf k)) = k"
  by (simp add: offsetOf_def cursorOf_def)

lemma offsetOf_None: "offsetOf None = 0"
  by (simp add: offsetOf_def)

lemma whenTruthy_None: "whenTruthy None = None"
  by (simp add: whenTruthy_def truthy_def)

lemma gateway250_fetches:
  "queryFetches gateway250 ''ds1'' None 0 None 0
     [servePage (manyPages 250) 50 None,
      servePage (manyPages 250) 50 (Some (cursorOf 50)),
      servePage (manyPages 250) 50 (Some (cursorOf 100)),
      servePage (manyPages 250) 50 (Some (cursorOf 150))] 4"
  by (simp add: gateway250_def servingGateway_def MAX_PAGES_def PAGE_SIZE_def
      whenTruthy_cursorOf offsetOf_Some_cursorOf truthy_cursorOf length_manyPages
      servePage_def resultsOf_def offsetOf_None whenTruthy_None)

text \<open>
  C5, as stated, fails: the cap of the loop is 200 results, not 200 requests. A surface of
  250 pages served 50 at a time is cut to its first 200 pages after four requests, although
  the last page fetched says that there are more.
\<close>

theorem queryDataSource_cap_counterexample:
  "length (manyPages 250) = 250 \<and>
   queryFetches gateway250 ''ds1'' None 0 None 0
     [servePage (manyPages 250) 50 None,
      servePage (manyPages 250) 50 (Some (cursorOf 50)),
      servePage (manyPages 250) 50 (Some (cursorOf 100)),
      servePage (manyPages 250) 50 (Some (cursorOf 150))] 4 \<and>
   has_more (servePage (manyPages 250) 50 (Some (cursorOf 150))) \<and>
   queryDataSource gateway250 ''ds1'' None 0 = Some (Inr (manyPages 200), 4)"
proof -
  let ?pages = "[servePage (manyPages 250) 50 None,
      servePage (manyPages 250) 50 (Some (cursorOf 50)),
      servePage (manyPages 250) 50 (Some (cursorOf 100)),
      servePage (manyPages 250) 50 (Some (cursorOf 150))]"
  have run: "queryDataSource gateway250 ''ds1'' None 0
             = Some (Inr (concat (map resultsOf ?pages)), 4)"
    using queryLoop_of_fetches[of gateway250 "''ds1''" None "[]" None 0 ?pages 4]
      gateway250_fetches
    by (simp add: queryDataSource_def)
  obtain n' where "queryDataSource gateway250 ''ds1'' None 0
             = Some (Inr (take MAX_PAGES (manyPages 250)), n')"
    using queryLoop_serving[of None "[]" "\<lambda>dsId. manyPages 250" "''ds1''" sampleDb "\<lambda>b. []" None 0]
    by (auto simp: queryDataSource_def gateway250_def offsetOf_def whenTruthy_def truthy_def)
  with run have "concat (map resultsOf ?pages) = take MAX_PAGES (manyPages 250)"
    by simp
  also have "\<dots> = manyPages 200"
    by (simp add: manyPages_def MAX_PAGES_def take_map)
  finally have "queryDataSource gateway250 ''ds1'' None 0 = Some (Inr (manyPages 200), 4)"
    using run by simp
  moreover have "has_more (servePage (manyPages 250) 50 (Some (cursorOf 150)))"
    by (simp add: servePage_def offsetOf_Some_cursorOf length_manyPages)
  ultimately show ?thesis
    using gateway250_fetches by (simp add: length_manyPages)
qed

section \<open>Comments since the last run\<close>

text \<open>
  C8, amended. \<open>getCommentsSince\<close> returns a list of comments exactly when the gateway
  answers every request of the listing without error up to a payload without
  \<^verbatim>\<open>has_more\<close>; the list holds, in order, the comments of all these payloads that pass
  the filter of the script. A comment passes when there is no watermark, or when it has no
  creation time, or when its creation time is on or after the watermark. Against a gateway
  that serves the comments of a block in pages the result is all comments of the block that
  pass the filter.
\<close>

theorem getCommentsSince_keeps:
  fixes gw :: "'w gateway"
  shows
  "(getCommentsSince gw b since w = Some (Inr res, w') \<longleftrightarrow>
      (\<exists>pages. commentFetches gw b None w pages w' \<and>
         res = filter (keptSince since) (concat (map resultsOf pages)))) \<and>
   (keptSince since c \<longleftrightarrow>
      (\<not> truthy since \<or> \<not> truthy (comment_created_time c) \<or>
       (\<exists>s t. since = Some s \<and> comment_created_time c = Some t \<and> s \<le> t))) \<and>
   (\<exists>n'. getCommentsSince (servingGateway dbOf pagesOf commentsOf) b' since n
           = Some (Inr (filter (keptSince since) (commentsOf b')), n'))"
proof -
  have fetch: "getCommentsSince gw b since w = Some (Inr res, w') \<longleftrightarrow>
      (\<exists>pages. commentFetches gw b None w pages w' \<and>
         res = filter (keptSince since) (concat (map resultsOf pages)))"
    using commentsLoop_fetches[of gw b since "[]" None w res w']
      commentsLoop_of_fetches[of gw b None w _ w' since "[]"]
    by (auto simp: getCommentsSince_def)
  have kept: "keptSince since c \<longleftrightarrow>
      (\<not> truthy since \<or> \<not> truthy (comment_created_time c) \<or>
       (\<exists>s t. since = Some s \<and> comment_created_time c = Some t \<and> s \<le> t))"
    by (auto simp: keptSince_def truthy_def split: option.splits)
  have serve: "\<exists>n'. getCommentsSince (servingGateway dbOf pagesOf commentsOf) b' since n
           = Some (Inr (filter (keptSince since) (commentsOf b')), n')"
    using commentsLoop_serving[of None 0 dbOf pagesOf commentsOf b' since "[]" n]
    by (simp add: getCommentsSince_def offsetOf_def whenTruthy_def truthy_def)
  from fetch kept serve show ?thesis by blast
qed

lemma kept_samples:
  "filter (keptSince (Some sampleWatermark)) [olderComment, newerComment, undatedComment]
     = [newerComment, undatedComment]"
  by code_simp

theorem getCommentsSince_keeps_witness:
  "\<not> truthy (comment_created_time undatedComment) \<and>
   keptSince (Some sampleWatermark) undatedComment \<and>
   (\<exists>n'. getCommentsSince commentedGateway ''p1'' (Some sampleWatermark) 0
           = Some (Inr [newerComment, undatedComment], n'))"
proof -
  have u: "\<not> truthy (comment_created_time undatedComment)"
    by (simp add: undatedComment_def sampleComment_def truthy_def)
  from u getCommentsSince_keeps[THEN conjunct2, THEN conjunct1,
      of "Some sampleWatermark" undatedComment]
  have k: "keptSince (Some sampleWatermark) undatedComment"
    by blast
  have "\<exists>n'. getCommentsSince commentedGateway ''p1'' (Some sampleWatermark) 0
           = Some (Inr [newerComment, undatedComment], n')"
    using getCommentsSince_keeps[THEN conjunct2, THEN conjunct2,
      of sampleDb "\<lambda>dsId. [samplePage dsId]" "\<lambda>b. [olderComment, newerComment, undatedComment]"
         "''p1''" "Some sampleWatermark" 0]
    by (simp only: commentedGateway_def kept_samples)
  with u k show ?thesis by blast
qed

text \<open>
  C8, as stated, fails: with a watermark, a comment without creation time is kept, so the
  comments kept are not exactly those created on or after the watermark.
\<close>

theorem getCommentsSince_undated_counterexample:
  "getCommentsSince commentedGateway ''p1'' (Some sampleWatermark) 0
     = Some (Inr [newerComment, undatedComment], 1) \<and>
   filter (spec_createdOnOrAfter sampleWatermark) [olderComment, newerComment, undatedComment]
     = [newerComment]"
  by code_simp

section \<open>The seen map after a commit\<close>





















lemma mergeSeen_snoc:
  "mergeSeen ranAt cur (its @ [x]) = AList.update (item_id x) (stampOf ranAt x) (mergeSeen ranAt cur its)"
  by (simp add: mergeSeen_def)


lemma map_of_mergeSeen_other:
  "k \<notin> item_id ` set its \<Longrightarrow> map_of (mergeSeen ranAt cur its) k = map_of cur k"
  by (induction its rule: rev_induct) (simp_all add: mergeSeen_snoc update_conv', simp add: mergeSeen_def)


lemma seenMapOf_lastRunIso [simp]: "seenMapOf (st\<lparr>lastRunIso := x\<rparr>) k = seenMapOf st k"
  by (simp add: seenMapOf_def)





















section \<open>The report and the order of arrival\<close>





text \<open>The scan of the pages of a surface computes \<open>groupItems\<close> of the pages in the order
  of the query result, each with the comments fetched for it.\<close>

lemma scanPages_foldl:
  "scanPages gw lastRun seen ps gs w = Some (Inr gs', w') \<Longrightarrow>
   \<exists>cs. length cs = length ps \<and> gs' = foldl (addPage seen) gs (zip ps cs)"
proof (induction ps arbitrary: gs w)
  case Nil
  then show ?case by simp
next
  case (Cons p ps)
  from Cons.prems obtain comments w1 where
    c: "getCommentsSince gw (page_id p) lastRun w = Some (Inr comments, w1)" and
    r: "scanPages gw lastRun seen ps (addPage seen gs (p, comments)) w1 = Some (Inr gs', w')"
    by (auto split: option.splits sum.splits)
  from Cons.IH[OF r] obtain cs where "length cs = length ps"
    "gs' = foldl (addPage seen) (addPage seen gs (p, comments)) (zip ps cs)"
    by blast
  then have "length (comments # cs) = length (p # ps) \<and>
      gs' = foldl (addPage seen) gs (zip (p # ps) (comments # cs))"
    by simp
  then show ?case by blast
qed

lemma scanPages_groupItems:
  "scanPages gw lastRun seen ps emptyGroups w = Some (Inr gs, w') \<Longrightarrow>
   \<exists>cs. length cs = length ps \<and> gs = groupItems seen (zip ps cs)"
  using scanPages_foldl[of gw lastRun seen ps emptyGroups w gs w']
  by (simp add: groupItems_def)





end
